theory Spec2Isabelle
  imports Main "HOL-Library.List_Lexorder" "HOL-Library.AList"
begin

section \<open>Strings, values and errors\<close>

text \<open>
  A JavaScript string is a sequence of UTF-16 code units. The regular expressions of
  \<^verbatim>\<open>src/index.ts\<close> carry neither the \<^verbatim>\<open>u\<close> nor the \<^verbatim>\<open>i\<close> flag, so they
  compare code units one by one; a code unit is modelled by its number. \<open>js\<close> turns an
  ASCII/Latin-1 literal into its code units.
\<close>

type_synonym jsstring = "nat list"

definition js :: "string \<Rightarrow> jsstring" where
  "js s = map of_char s"

text \<open>
  The \<^verbatim>\<open>TypeError\<close>s that \<^verbatim>\<open>format\<close> and \<^verbatim>\<open>parse\<close> throw, one constructor per
  message of the source.
\<close>

datatype error =
    ArgumentObjRequired
  | InvalidType
  | InvalidParameterName
  | InvalidParameterValue
  | HeaderMissing
  | ArgumentStringRequired
  | ArgumentStringNotString
  | InvalidMediaType
  | InvalidParameterFormat

fun message :: "error \<Rightarrow> string" where
  "message ArgumentObjRequired = ''argument obj is required''"
| "message InvalidType = ''invalid type''"
| "message InvalidParameterName = ''invalid parameter name''"
| "message InvalidParameterValue = ''invalid parameter value''"
| "message HeaderMissing = ''content-type header is missing from object''"
| "message ArgumentStringRequired = ''argument string is required''"
| "message ArgumentStringNotString = ''argument string is required to be a string''"
| "message InvalidMediaType = ''invalid media type''"
| "message InvalidParameterFormat = ''invalid parameter format''"

text \<open>
  What \<^verbatim>\<open>parse\<close> can be handed at run time. Of an object only what
  \<^verbatim>\<open>getcontenttype\<close> inspects is kept: the two \<^verbatim>\<open>instanceof\<close> tests, the
  \<^verbatim>\<open>getHeader\<close> property (\<open>None\<close> when it is not a function) and the
  \<^verbatim>\<open>headers\<close> property. A header lookup yields \<open>Some s\<close> for the string \<open>s\<close> and
  \<open>None\<close> for anything that is not a string.
\<close>

datatype headers_prop =
    NoHeaders
  | NullHeaders
  | Headers "jsstring \<rightharpoonup> jsstring"

record jsobject =
  instanceof_Response :: bool
  instanceof_Request :: bool
  getHeader :: "(jsstring \<Rightarrow> jsstring option) option"
  headers :: headers_prop

datatype jsvalue =
    JSUndefined
  | JSNull
  | JSBoolean bool
  | JSNumber int
  | JSNaN
  | JSString jsstring
  | JSFunction
  | JSObject jsobject

fun truthy :: "jsvalue \<Rightarrow> bool" where
  "truthy JSUndefined = False"
| "truthy JSNull = False"
| "truthy (JSBoolean b) = b"
| "truthy (JSNumber n) = (n \<noteq> 0)"
| "truthy JSNaN = False"
| "truthy (JSString s) = (s \<noteq> [])"
| "truthy JSFunction = True"
| "truthy (JSObject obj) = True"

text \<open>
  The class \<^verbatim>\<open>ContentType\<close>. The \<^verbatim>\<open>parameters\<close> object is the list of its own
  properties, in the order in which \<^verbatim>\<open>Object.keys\<close> enumerates them; its values are
  strings (\<^verbatim>\<open>String(val)\<close> is the identity on them).
\<close>

record ContentType =
  parameters :: "(jsstring \<times> jsstring) list"
  type :: jsstring

section \<open>Character classes and regular expressions\<close>

text \<open>The class \<^verbatim>\<open>[!#$%&'*+.^_`|~0-9A-Za-z-]\<close>.\<close>

definition tchar :: "nat \<Rightarrow> bool" where
  "tchar c \<longleftrightarrow>
     c = 0x21 \<or> c = 0x23 \<or> c = 0x24 \<or> c = 0x25 \<or> c = 0x26 \<or> c = 0x27 \<or> c = 0x2A \<or>
     c = 0x2B \<or> c = 0x2E \<or> c = 0x5E \<or> c = 0x5F \<or> c = 0x60 \<or> c = 0x7C \<or> c = 0x7E \<or>
     (0x30 \<le> c \<and> c \<le> 0x39) \<or> (0x41 \<le> c \<and> c \<le> 0x5A) \<or> (0x61 \<le> c \<and> c \<le> 0x7A) \<or>
     c = 0x2D"

text \<open>The class \<^verbatim>\<open>[\u000b\u0020-\u007e\u0080-\u00ff]\<close> of \<^verbatim>\<open>TEXT_REGEXP\<close>.\<close>

definition text_char :: "nat \<Rightarrow> bool" where
  "text_char c \<longleftrightarrow> c = 0x0B \<or> (0x20 \<le> c \<and> c \<le> 0x7E) \<or> (0x80 \<le> c \<and> c \<le> 0xFF)"

text \<open>
  The class \<^verbatim>\<open>[\u000b\u0020\u0021\u0023-\u005b\u005d-\u007e\u0080-\u00ff]\<close> inside the
  quoted alternative of \<^verbatim>\<open>PARAM_REGEXP\<close>.
\<close>

definition qdtext_char :: "nat \<Rightarrow> bool" where
  "qdtext_char c \<longleftrightarrow>
     c = 0x0B \<or> c = 0x20 \<or> c = 0x21 \<or> (0x23 \<le> c \<and> c \<le> 0x5B) \<or>
     (0x5D \<le> c \<and> c \<le> 0x7E) \<or> (0x80 \<le> c \<and> c \<le> 0xFF)"

text \<open>
  The class \<^verbatim>\<open>[\u000b\u0020-\u00ff]\<close> after the backslash, in \<^verbatim>\<open>PARAM_REGEXP\<close> and
  in \<^verbatim>\<open>QESC_REGEXP\<close>.
\<close>

definition qesc_char :: "nat \<Rightarrow> bool" where
  "qesc_char c \<longleftrightarrow> c = 0x0B \<or> (0x20 \<le> c \<and> c \<le> 0xFF)"

text \<open>\<^verbatim>\<open>TOKEN_REGEXP.test(str)\<close>, \<^verbatim>\<open>TEXT_REGEXP.test(str)\<close>: one or more characters of the class,
  from the start of the string to its end.\<close>

definition TOKEN_REGEXP_test :: "jsstring \<Rightarrow> bool" where
  "TOKEN_REGEXP_test str \<longleftrightarrow> str \<noteq> [] \<and> list_all tchar str"

definition TEXT_REGEXP_test :: "jsstring \<Rightarrow> bool" where
  "TEXT_REGEXP_test str \<longleftrightarrow> str \<noteq> [] \<and> list_all text_char str"

text \<open>\<^verbatim>\<open>TYPE_REGEXP.test(str)\<close>: a token, a slash, a token, and then the end of the string.
  A slash is no token character, so the first token is the longest run of token characters.\<close>

definition TYPE_REGEXP_test :: "jsstring \<Rightarrow> bool" where
  "TYPE_REGEXP_test str \<longleftrightarrow>
     takeWhile tchar str \<noteq> [] \<and>
     (case dropWhile tchar str of
        [] \<Rightarrow> False
      | c # subtype \<Rightarrow> c = 0x2F \<and> TOKEN_REGEXP_test subtype)"

section \<open>The formatter\<close>

text \<open>\<^verbatim>\<open>str.replace(QUOTE_REGEXP, '\\$1')\<close>: a backslash before every backslash and double quote.\<close>

definition replace_QUOTE :: "jsstring \<Rightarrow> jsstring" where
  "replace_QUOTE str = concat (map (\<lambda>c. if c = 0x5C \<or> c = 0x22 then [0x5C, c] else [c]) str)"

definition qstring :: "jsstring \<Rightarrow> error + jsstring" where
  "qstring str =
     (if TOKEN_REGEXP_test str then Inr str
      else if length str > 0 \<and> \<not> TEXT_REGEXP_test str then Inl InvalidParameterValue
      else Inr ([0x22] @ replace_QUOTE str @ [0x22]))"

text \<open>\<^verbatim>\<open>String(parameters[param])\<close>: a name that the object does not bind reads as
  \<^verbatim>\<open>undefined\<close>, whose string is \<^verbatim>\<open>'undefined'\<close>.\<close>

definition String_of :: "jsstring option \<Rightarrow> jsstring" where
  "String_of v = (case v of None \<Rightarrow> js ''undefined'' | Some s \<Rightarrow> s)"

text \<open>The \<^verbatim>\<open>for (const param of params)\<close> loop of \<^verbatim>\<open>format\<close>, with the string built so far.\<close>

fun format_loop :: "(jsstring \<times> jsstring) list \<Rightarrow> jsstring list \<Rightarrow> jsstring \<Rightarrow> error + jsstring" where
  "format_loop ps [] string = Inr string"
| "format_loop ps (param # params) string =
     (if \<not> TOKEN_REGEXP_test param then Inl InvalidParameterName
      else case qstring (String_of (map_of ps param)) of
             Inl e \<Rightarrow> Inl e
           | Inr q \<Rightarrow> format_loop ps params (string @ js ''; '' @ param @ js ''='' @ q))"

text \<open>
  \<^verbatim>\<open>format(obj)\<close>; \<open>None\<close> is an argument that is missing or no object. A
  \<^verbatim>\<open>ContentType\<close> always has a \<^verbatim>\<open>parameters\<close> object, so the guard
  \<^verbatim>\<open>parameters && typeof parameters == 'object'\<close> holds. \<^verbatim>\<open>Object.keys(parameters).sort()\<close>
  orders the names by code units, the lexicographic order of \<open>nat list\<close>.
\<close>

definition format :: "ContentType option \<Rightarrow> error + jsstring" where
  "format arg =
     (case arg of
        None \<Rightarrow> Inl ArgumentObjRequired
      | Some obj \<Rightarrow>
          if type obj = [] \<or> \<not> TYPE_REGEXP_test (type obj) then Inl InvalidType
          else format_loop (parameters obj) (sort (map fst (parameters obj))) (type obj))"

section \<open>The parser\<close>

text \<open>\<^verbatim>\<open>typeof obj.getHeader === 'function'\<close> and \<^verbatim>\<open>typeof obj.headers === 'object'\<close>;
  the latter holds of \<^verbatim>\<open>null\<close> too.\<close>

definition typeof_function :: "(jsstring \<Rightarrow> jsstring option) option \<Rightarrow> bool" where
  "typeof_function g = (case g of None \<Rightarrow> False | Some f \<Rightarrow> True)"

definition typeof_object :: "headers_prop \<Rightarrow> bool" where
  "typeof_object h = (case h of NoHeaders \<Rightarrow> False | NullHeaders \<Rightarrow> True | Headers m \<Rightarrow> True)"

definition getcontenttype :: "jsobject \<Rightarrow> error + jsstring" where
  "getcontenttype obj =
     (let header =
        (if instanceof_Response obj \<and> typeof_function (getHeader obj) then
           (case getHeader obj of Some f \<Rightarrow> f (js ''content-type'') | None \<Rightarrow> None)
         else if instanceof_Request obj \<and> typeof_object (headers obj) then
           (case headers obj of Headers h \<Rightarrow> h (js ''content-type'') | _ \<Rightarrow> None)
         else None)
      in case header of None \<Rightarrow> Inl HeaderMissing | Some s \<Rightarrow> Inr s)"

text \<open>\<^verbatim>\<open>header.indexOf(';')\<close>, with \<open>None\<close> for \<open>-1\<close>.\<close>

definition indexOf_semicolon :: "jsstring \<Rightarrow> nat option" where
  "indexOf_semicolon header =
     (let n = length (takeWhile (\<lambda>c. c \<noteq> 0x3B) header)
      in if n = length header then None else Some n)"

text \<open>\<^verbatim>\<open>String.prototype.trim\<close> removes the white space and line terminators of ECMAScript
  from both ends.\<close>

definition whitespace :: "nat \<Rightarrow> bool" where
  "whitespace c \<longleftrightarrow>
     c = 0x09 \<or> c = 0x0A \<or> c = 0x0B \<or> c = 0x0C \<or> c = 0x0D \<or> c = 0x20 \<or> c = 0xA0 \<or>
     c = 0x1680 \<or> (0x2000 \<le> c \<and> c \<le> 0x200A) \<or> c = 0x2028 \<or> c = 0x2029 \<or> c = 0x202F \<or>
     c = 0x205F \<or> c = 0x3000 \<or> c = 0xFEFF"

definition trim :: "jsstring \<Rightarrow> jsstring" where
  "trim s = rev (dropWhile whitespace (rev (dropWhile whitespace s)))"

text \<open>\<^verbatim>\<open>toLowerCase\<close> on the strings it is applied to here, which have passed
  \<^verbatim>\<open>TYPE_REGEXP\<close> or were captured by the token class: only A to Z change.\<close>

definition toLowerCase :: "jsstring \<Rightarrow> jsstring" where
  "toLowerCase s = map (\<lambda>c. if 0x41 \<le> c \<and> c \<le> 0x5A then c + 0x20 else c) s"

text \<open>\<^verbatim>\<open>s.substring(a, b)\<close>: both indices are clamped to the length and swapped when
  \<open>a > b\<close>. A negative index counts as 0, which the truncating subtraction of \<open>nat\<close> gives for
  \<^verbatim>\<open>value.length - 2\<close>.\<close>

definition substring :: "jsstring \<Rightarrow> nat \<Rightarrow> nat \<Rightarrow> jsstring" where
  "substring s a b =
     (let a' = min a (length s); b' = min b (length s);
          lo = min a' b'; hi = max a' b'
      in take (hi - lo) (drop lo s))"

text \<open>\<^verbatim>\<open>s.replace(QESC_REGEXP, '$1')\<close>: from left to right, every backslash followed by a
  character of the class is dropped and the character kept; the scan goes on after it.\<close>

fun replace_QESC :: "jsstring \<Rightarrow> jsstring" where
  "replace_QESC (c # d # cs) =
     (if c = 0x5C \<and> qesc_char d then d # replace_QESC cs else c # replace_QESC (d # cs))"
| "replace_QESC cs = cs"

text \<open>Lines 152 to 155 of \<^verbatim>\<open>parse\<close>: what is stored for the captured value \<^verbatim>\<open>match[2]\<close>.\<close>

definition stored_value :: "jsstring \<Rightarrow> jsstring" where
  "stored_value v =
     (case v of
        [] \<Rightarrow> v
      | c # _ \<Rightarrow> if c = 0x22 then replace_QESC (substring v 1 (length v - 2)) else v)"

text \<open>
  \<^verbatim>\<open>PARAM_REGEXP\<close> is
  \<^verbatim>\<open>; *(token) *= *("(?:qdtext|\\qesc)*"|token) *\<close>.
  Every choice the backtracking matcher of JavaScript has is decided by the next
  character: a space is no token character, neither \<^verbatim>\<open>=\<close> nor \<^verbatim>\<open>"\<close> is a token
  character or a space, and inside the quotes the class excludes both \<^verbatim>\<open>"\<close> and the
  backslash. So each greedy star takes its longest run and giving characters back never
  helps; the match at a position is computed from left to right.

  \<open>quoted_rest\<close> reads the quoted alternative after its opening quote and returns the text
  up to and including the closing quote, with what follows it.
\<close>

fun quoted_rest :: "jsstring \<Rightarrow> (jsstring \<times> jsstring) option" where
  "quoted_rest [] = None"
| "quoted_rest (c # cs) =
     (if c = 0x22 then Some ([c], cs)
      else if qdtext_char c then map_option (\<lambda>(q, r). (c # q, r)) (quoted_rest cs)
      else if c = 0x5C then
        (case cs of
           [] \<Rightarrow> None
         | d # ds \<Rightarrow>
             if qesc_char d then map_option (\<lambda>(q, r). (c # d # q, r)) (quoted_rest ds)
             else None)
      else None)"

text \<open>The second group: a quoted string or, when the text does not start with a quote, a token.\<close>

definition value_match :: "jsstring \<Rightarrow> (jsstring \<times> jsstring) option" where
  "value_match s =
     (case s of
        [] \<Rightarrow> None
      | c # cs \<Rightarrow>
          if c = 0x22 then map_option (\<lambda>(q, r). (c # q, r)) (quoted_rest cs)
          else if takeWhile tchar s = [] then None
          else Some (takeWhile tchar s, dropWhile tchar s))"

definition space :: "nat \<Rightarrow> bool" where
  "space c \<longleftrightarrow> c = 0x20"

text \<open>A match of \<^verbatim>\<open>PARAM_REGEXP\<close> that starts at the head of \<open>s\<close>:
  the length of \<^verbatim>\<open>match[0]\<close>, then \<^verbatim>\<open>match[1]\<close> and \<^verbatim>\<open>match[2]\<close>.\<close>

definition PARAM_REGEXP_match :: "jsstring \<Rightarrow> (nat \<times> jsstring \<times> jsstring) option" where
  "PARAM_REGEXP_match s =
     (case s of
        [] \<Rightarrow> None
      | c # s1 \<Rightarrow>
          if c \<noteq> 0x3B then None
          else
            let s2 = dropWhile space s1;
                name = takeWhile tchar s2;
                s3 = dropWhile space (dropWhile tchar s2)
            in if name = [] then None
               else
                 (case s3 of
                    [] \<Rightarrow> None
                  | e # s4 \<Rightarrow>
                      if e \<noteq> 0x3D then None
                      else
                        (case value_match (dropWhile space s4) of
                           None \<Rightarrow> None
                         | Some (v, s5) \<Rightarrow>
                             Some (length s - length (dropWhile space s5), name, v))))"

text \<open>
  \<^verbatim>\<open>PARAM_REGEXP.exec(header)\<close> with \<^verbatim>\<open>lastIndex\<close> given: the regular expression has the
  \<^verbatim>\<open>g\<close> flag and is not sticky, so the search tries every position from \<^verbatim>\<open>lastIndex\<close> on
  and returns the first match, with its \<^verbatim>\<open>index\<close>.
\<close>

fun PARAM_REGEXP_search :: "jsstring \<Rightarrow> nat \<Rightarrow> (nat \<times> nat \<times> jsstring \<times> jsstring) option" where
  "PARAM_REGEXP_search [] i = None"
| "PARAM_REGEXP_search (c # cs) i =
     (case PARAM_REGEXP_match (c # cs) of
        Some (n, key, v) \<Rightarrow> Some (i, n, key, v)
      | None \<Rightarrow> PARAM_REGEXP_search cs (Suc i))"

definition PARAM_REGEXP_exec :: "jsstring \<Rightarrow> nat \<Rightarrow> (nat \<times> nat \<times> jsstring \<times> jsstring) option" where
  "PARAM_REGEXP_exec header lastIndex = PARAM_REGEXP_search (drop lastIndex header) lastIndex"

lemma length_quoted_rest: "quoted_rest s = Some (q, r) \<Longrightarrow> length r < length s"
proof (induction s arbitrary: q r rule: quoted_rest.induct)
  case 1
  then show ?case by simp
next
  case (2 c cs)
  show ?case
  proof (cases "c = 0x22")
    case True
    with "2.prems" show ?thesis by auto
  next
    case quote: False
    show ?thesis
    proof (cases "qdtext_char c")
      case True
      with quote "2.prems" obtain q' where "quoted_rest cs = Some (q', r)" by auto
      with "2.IH"(1) [OF quote True] show ?thesis by fastforce
    next
      case False
      with quote "2.prems" obtain d ds q' where
        c: "c = 0x5C" and cs: "cs = d # ds" and d: "qesc_char d" and "quoted_rest ds = Some (q', r)"
        by (auto split: if_splits list.splits)
      with "2.IH"(2) [OF quote False c cs d] show ?thesis by fastforce
    qed
  qed
qed

lemma length_value_match:
  assumes "value_match s = Some (v, r)"
  shows "length r \<le> length s"
proof (cases s)
  case Nil
  with assms show ?thesis by (simp add: value_match_def)
next
  case (Cons c cs)
  show ?thesis
  proof (cases "c = 0x22")
    case True
    with assms Cons obtain q where "quoted_rest cs = Some (q, r)"
      by (auto simp: value_match_def)
    from length_quoted_rest [OF this] Cons show ?thesis by simp
  next
    case False
    with assms Cons have "r = dropWhile tchar s"
      by (auto simp: value_match_def split: if_splits)
    then show ?thesis by (simp add: length_dropWhile_le)
  qed
qed

lemma length_PARAM_REGEXP_match:
  assumes "PARAM_REGEXP_match s = Some (n, key, v)"
  shows "0 < n \<and> n \<le> length s"
proof -
  from assms obtain c s1 where s: "s = c # s1"
    by (cases s) (auto simp: PARAM_REGEXP_match_def)
  define s2 where "s2 = dropWhile space s1"
  define s3 where "s3 = dropWhile space (dropWhile tchar s2)"
  from assms s obtain e s4 v' s5 where
    s3: "s3 = e # s4" and vm: "value_match (dropWhile space s4) = Some (v', s5)"
    and n: "n = length s - length (dropWhile space s5)"
    by (auto simp: PARAM_REGEXP_match_def Let_def s2_def s3_def
        split: if_splits list.splits option.splits)
  have "length s3 \<le> length s1"
    unfolding s3_def s2_def
    by (meson length_dropWhile_le order_trans)
  moreover have "length s5 \<le> length s4"
    using length_value_match [OF vm] length_dropWhile_le [of space s4] by linarith
  moreover have "length (dropWhile space s5) \<le> length s5"
    by (rule length_dropWhile_le)
  ultimately have "length (dropWhile space s5) < length s"
    using s s3 by simp
  with n show ?thesis by simp
qed

lemma PARAM_REGEXP_search_index:
  "PARAM_REGEXP_search s i = Some (i, n, key, v) \<Longrightarrow> PARAM_REGEXP_match s = Some (n, key, v)"
proof -
  have later: "PARAM_REGEXP_search s j = Some (p, m) \<Longrightarrow> j \<le> p" for s j p m
    by (induction s arbitrary: j) (auto split: option.splits, fastforce)
  assume a: "PARAM_REGEXP_search s i = Some (i, n, key, v)"
  show ?thesis
  proof (cases s)
    case Nil
    with a show ?thesis by simp
  next
    case (Cons c cs)
    show ?thesis
    proof (cases "PARAM_REGEXP_match (c # cs)")
      case None
      with a Cons have "PARAM_REGEXP_search cs (Suc i) = Some (i, n, key, v)" by simp
      from later [OF this] show ?thesis by simp
    next
      case (Some m)
      with a Cons show ?thesis by (auto split: prod.splits)
    qed
  qed
qed

lemma PARAM_REGEXP_exec_index:
  assumes "PARAM_REGEXP_exec header index = Some (index, n, key, v)"
  shows "0 < n \<and> index + n \<le> length header"
proof -
  from assms have "PARAM_REGEXP_match (drop index header) = Some (n, key, v)"
    unfolding PARAM_REGEXP_exec_def by (rule PARAM_REGEXP_search_index)
  from length_PARAM_REGEXP_match [OF this] show ?thesis by auto
qed

text \<open>
  The assignment \<^verbatim>\<open>obj.parameters[key] = value\<close> on the object \<^verbatim>\<open>{}\<close> that the
  constructor of \<^verbatim>\<open>ContentType\<close> makes, for a string \<^verbatim>\<open>value\<close>.
  \<^item> Such an object inherits \<^verbatim>\<open>__proto__\<close> from \<^verbatim>\<open>Object.prototype\<close> as an accessor,
    and its setter ignores a string: for this name nothing is stored.
  \<^item> A name that is already bound keeps its place and gets the new value.
  \<^item> A new name that is an array index (a decimal numeral without a leading zero, below
    \<open>2\<^sup>3\<^sup>2 - 1\<close>) is enumerated among the array indices, in ascending order, and these
    come before all other names; any other new name comes last.
\<close>

definition digit_value :: "jsstring \<Rightarrow> nat" where
  "digit_value key = foldl (\<lambda>n c. 10 * n + (c - 0x30)) 0 key"

definition array_index :: "jsstring \<Rightarrow> nat option" where
  "array_index key =
     (case key of
        [] \<Rightarrow> None
      | c # cs \<Rightarrow>
          if list_all (\<lambda>d. 0x30 \<le> d \<and> d \<le> 0x39) key \<and> (cs = [] \<or> c \<noteq> 0x30) \<and>
             digit_value key < 4294967295
          then Some (digit_value key) else None)"

fun insert_index ::
  "nat \<Rightarrow> jsstring \<Rightarrow> jsstring \<Rightarrow> (jsstring \<times> jsstring) list \<Rightarrow> (jsstring \<times> jsstring) list" where
  "insert_index n key v [] = [(key, v)]"
| "insert_index n key v ((k, w) # ps) =
     (case array_index k of
        Some m \<Rightarrow> if m < n then (k, w) # insert_index n key v ps else (key, v) # (k, w) # ps
      | None \<Rightarrow> (key, v) # (k, w) # ps)"

definition set_property ::
  "(jsstring \<times> jsstring) list \<Rightarrow> jsstring \<Rightarrow> jsstring \<Rightarrow> (jsstring \<times> jsstring) list" where
  "set_property ps key v =
     (if key = js ''__proto__'' then ps
      else if map_of ps key = None then
        (case array_index key of
           Some n \<Rightarrow> insert_index n key v ps
         | None \<Rightarrow> ps @ [(key, v)])
      else AList.update key v ps)"

text \<open>
  The \<^verbatim>\<open>while\<close> loop of \<^verbatim>\<open>parse\<close> and the test that follows it. Whenever
  \<^verbatim>\<open>exec\<close> is called, \<^verbatim>\<open>lastIndex\<close> equals \<^verbatim>\<open>index\<close>: it is set so before the loop,
  and after a match at \<^verbatim>\<open>index\<close> both are the end of that match.
\<close>

function parse_loop ::
  "jsstring \<Rightarrow> nat \<Rightarrow> (jsstring \<times> jsstring) list \<Rightarrow> error + (jsstring \<times> jsstring) list" where
  "parse_loop header index ps =
     (case PARAM_REGEXP_exec header index of
        None \<Rightarrow> if index \<noteq> length header then Inl InvalidParameterFormat else Inr ps
      | Some (match_index, n, key, v) \<Rightarrow>
          if match_index \<noteq> index then Inl InvalidParameterFormat
          else parse_loop header (index + n)
                 (set_property ps (toLowerCase key) (stored_value v)))"
  by pat_completeness auto
termination
proof (relation "measure (\<lambda>(header, index, ps). length header - index)", goal_cases)
  case 1
  show ?case by simp
next
  case (2 header index ps m match_index r n r' key v)
  then have "PARAM_REGEXP_exec header index = Some (index, n, key, v)" by simp
  from PARAM_REGEXP_exec_index [OF this] show ?case by (simp; arith)
qed

declare parse_loop.simps [simp del]

text \<open>\<^verbatim>\<open>parse\<close> from line 130 on, once \<^verbatim>\<open>header\<close> is known to be a string.\<close>

definition parse_header :: "jsstring \<Rightarrow> error + ContentType" where
  "parse_header header =
     (let index = indexOf_semicolon header;
          ty = (case index of Some i \<Rightarrow> trim (substring header 0 i) | None \<Rightarrow> trim header)
      in if \<not> TYPE_REGEXP_test ty then Inl InvalidMediaType
         else
           (case index of
              None \<Rightarrow> Inr \<lparr>parameters = [], type = toLowerCase ty\<rparr>
            | Some i \<Rightarrow>
                (case parse_loop header i [] of
                   Inl e \<Rightarrow> Inl e
                 | Inr ps \<Rightarrow> Inr \<lparr>parameters = ps, type = toLowerCase ty\<rparr>)))"

text \<open>
  \<^verbatim>\<open>parse(string)\<close>: a falsy argument is refused first; an object (\<^verbatim>\<open>null\<close> is falsy and
  gone by then) is asked for its header; any other value must be a string itself.
\<close>

definition parse :: "jsvalue \<Rightarrow> error + ContentType" where
  "parse string =
     (if \<not> truthy string then Inl ArgumentStringRequired
      else
        (case string of
           JSObject obj \<Rightarrow>
             (case getcontenttype obj of Inl e \<Rightarrow> Inl e | Inr header \<Rightarrow> parse_header header)
         | JSString header \<Rightarrow> parse_header header
         | _ \<Rightarrow> Inl ArgumentStringNotString))"

section \<open>The grammar of the specification\<close>

text \<open>
  The definitions of this section follow the words of the specification, not the regular
  expressions of the source. Optional whitespace is space and horizontal tab.
\<close>

definition OWS_char :: "nat \<Rightarrow> bool" where
  "OWS_char c \<longleftrightarrow> c = 0x20 \<or> c = 0x09"

text \<open>
  Quoted text: horizontal tab, space, visible ASCII except the double quote and the
  backslash, and 0x80 to 0xFF.
\<close>

definition quoted_text_char :: "nat \<Rightarrow> bool" where
  "quoted_text_char c \<longleftrightarrow>
     c = 0x09 \<or> c = 0x20 \<or> (0x21 \<le> c \<and> c \<le> 0x7E \<and> c \<noteq> 0x22 \<and> c \<noteq> 0x5C) \<or>
     (0x80 \<le> c \<and> c \<le> 0xFF)"

text \<open>What may follow a backslash in a quoted pair: horizontal tab, space, any visible
  ASCII character, or 0x80 to 0xFF.\<close>

definition quoted_pair_char :: "nat \<Rightarrow> bool" where
  "quoted_pair_char c \<longleftrightarrow>
     c = 0x09 \<or> c = 0x20 \<or> (0x21 \<le> c \<and> c \<le> 0x7E) \<or> (0x80 \<le> c \<and> c \<le> 0xFF)"

text \<open>A value is representable when it is a token, or not empty and within the quoted-text
  set.\<close>

definition representable :: "jsstring \<Rightarrow> bool" where
  "representable v \<longleftrightarrow> TOKEN_REGEXP_test v \<or> (v \<noteq> [] \<and> list_all quoted_text_char v)"

text \<open>
  One parameter as it stands in a header, by step 5 of the parser's description: a
  semicolon, optional whitespace, the name, optional whitespace, an equals sign, optional
  whitespace, the value as written (a bare token, or a quoted string with its quotes),
  optional whitespace. The whitespace that the description allows before the semicolon is
  the trailing whitespace of the parameter before it, or, for the first parameter, belongs
  to the text before the first semicolon.
\<close>

record param_text =
  lead :: jsstring
  pname :: jsstring
  before_eq :: jsstring
  after_eq :: jsstring
  pvalue :: jsstring
  trail :: jsstring

definition param_string :: "param_text \<Rightarrow> jsstring" where
  "param_string p =
     [0x3B] @ lead p @ pname p @ before_eq p @ [0x3D] @ after_eq p @ pvalue p @ trail p"

text \<open>What may stand between the quotes: quoted text and quoted pairs.\<close>

fun quoted_content :: "jsstring \<Rightarrow> bool" where
  "quoted_content [] = True"
| "quoted_content (c # cs) =
     (if quoted_text_char c then quoted_content cs
      else c = 0x5C \<and>
        (case cs of [] \<Rightarrow> False | d # ds \<Rightarrow> quoted_pair_char d \<and> quoted_content ds))"

definition quoted_string :: "jsstring \<Rightarrow> bool" where
  "quoted_string v \<longleftrightarrow>
     (case v of
        [] \<Rightarrow> False
      | c # cs \<Rightarrow> c = 0x22 \<and> cs \<noteq> [] \<and> last cs = 0x22 \<and> quoted_content (butlast cs))"

definition well_formed_param :: "param_text \<Rightarrow> bool" where
  "well_formed_param p \<longleftrightarrow>
     list_all OWS_char (lead p) \<and> TOKEN_REGEXP_test (pname p) \<and>
     list_all OWS_char (before_eq p) \<and> list_all OWS_char (after_eq p) \<and>
     (TOKEN_REGEXP_test (pvalue p) \<or> quoted_string (pvalue p)) \<and>
     list_all OWS_char (trail p)"

text \<open>A text is a parameter list when it is well-formed parameters one after the other,
  with nothing between them and nothing after the last.\<close>

definition parameter_list :: "jsstring \<Rightarrow> bool" where
  "parameter_list s \<longleftrightarrow> (\<exists>ps. list_all well_formed_param ps \<and> s = concat (map param_string ps))"

section \<open>Auxiliary notions for the proofs\<close>

text \<open>What the formatter writes for a value it accepts, and for a parameter.\<close>

definition quoted_value :: "jsstring \<Rightarrow> jsstring" where
  "quoted_value v = (if TOKEN_REGEXP_test v then v else [0x22] @ replace_QUOTE v @ [0x22])"

definition param_segment :: "jsstring \<times> jsstring \<Rightarrow> jsstring" where
  "param_segment kv = js ''; '' @ fst kv @ js ''='' @ quoted_value (snd kv)"

text \<open>The values that the quoting transform of the source does not refuse:
  \<^verbatim>\<open>qstring\<close> throws for every other string.\<close>

definition acceptable_value :: "jsstring \<Rightarrow> bool" where
  "acceptable_value v \<longleftrightarrow> TOKEN_REGEXP_test v \<or> v = [] \<or> TEXT_REGEXP_test v"


section \<open>Evaluation on concrete inputs\<close>

lemmas class_defs = tchar_def text_char_def qdtext_char_def qesc_char_def space_def whitespace_def

lemmas regexp_defs =
  TOKEN_REGEXP_test_def TEXT_REGEXP_test_def TYPE_REGEXP_test_def PARAM_REGEXP_exec_def
  PARAM_REGEXP_match_def value_match_def

lemmas parse_defs =
  js_def parse_def parse_header_def indexOf_semicolon_def trim_def substring_def toLowerCase_def
  stored_value_def parse_loop.simps getcontenttype_def typeof_function_def typeof_object_def
  set_property_def array_index_def digit_value_def

lemmas format_defs = js_def format_def qstring_def replace_QUOTE_def String_of_def

section \<open>The tests and the stored value, read declaratively\<close>

text \<open>\<^verbatim>\<open>TYPE_REGEXP\<close> accepts exactly a token, a slash and a token.\<close>

lemma TYPE_REGEXP_test_iff:
  "TYPE_REGEXP_test str \<longleftrightarrow>
     (\<exists>a b. str = a @ [0x2F] @ b \<and> TOKEN_REGEXP_test a \<and> TOKEN_REGEXP_test b)"
proof
  assume t: "TYPE_REGEXP_test str"
  then obtain b where d: "dropWhile tchar str = 0x2F # b" and b: "TOKEN_REGEXP_test b"
    and a: "takeWhile tchar str \<noteq> []"
    by (auto simp: TYPE_REGEXP_test_def split: list.splits)
  have "str = takeWhile tchar str @ dropWhile tchar str" by simp
  with d have "str = takeWhile tchar str @ [0x2F] @ b" by simp
  moreover have "list_all tchar (takeWhile tchar str)"
    by (auto simp: list_all_iff dest: set_takeWhileD)
  ultimately show "\<exists>a b. str = a @ [0x2F] @ b \<and> TOKEN_REGEXP_test a \<and> TOKEN_REGEXP_test b"
    using a b unfolding TOKEN_REGEXP_test_def by blast
next
  assume "\<exists>a b. str = a @ [0x2F] @ b \<and> TOKEN_REGEXP_test a \<and> TOKEN_REGEXP_test b"
  then obtain a b where s: "str = a @ 0x2F # b" and a: "a \<noteq> []" "list_all tchar a"
    and b: "TOKEN_REGEXP_test b"
    by (auto simp: TOKEN_REGEXP_test_def)
  have "\<not> tchar 0x2F" by (simp add: tchar_def)
  then have "takeWhile tchar str = a" "dropWhile tchar str = 0x2F # b"
    unfolding s using a(2) by (induction a) auto
  with a b show "TYPE_REGEXP_test str" by (simp add: TYPE_REGEXP_test_def)
qed


lemma stored_value_quoted:
  assumes "body \<noteq> []"
  shows "stored_value ([0x22] @ body @ [0x22]) = replace_QESC (butlast body)"
proof -
  from assms have len: "Suc 0 \<le> length body" by (cases body) simp_all
  have "substring ([0x22] @ body @ [0x22]) 1 (length ([0x22] @ body @ [0x22]) - 2) =
      take (length body - 1) body"
    using len by (simp add: substring_def Let_def min_def max_def)
  then show ?thesis
    by (simp add: stored_value_def butlast_conv_take)
qed

section \<open>Claims settled by evaluation\<close>

text \<open>
  C1. The claim: \<^verbatim>\<open>parse('text/html; charset="UTF-8"')\<close> has \<^verbatim>\<open>charset\<close> equal to
  \<^verbatim>\<open>UTF-8\<close>, the captured value without its two quotes. The code calls
  \<^verbatim>\<open>value.substring(1, value.length - 2)\<close>, whose second argument is an end index and not
  a length, so the last character of the content goes with the closing quote: the parameter
  is stored as \<^verbatim>\<open>UTF-\<close>.
\<close>

theorem parse_quoted_charset_drops_last:
  "parse (JSString (js ''text/html; charset=\"UTF-8\"'')) =
     Inr \<lparr>parameters = [(js ''charset'', js ''UTF-'')], type = js ''text/html''\<rparr>"
  by (simp add: parse_defs regexp_defs class_defs)

text \<open>
  C2. The claim: \<^verbatim>\<open>parse(format(m))\<close> gives \<^verbatim>\<open>m\<close> back. For the media type
  \<^verbatim>\<open>text/html\<close> with the parameter \<^verbatim>\<open>a\<close> bound to \<^verbatim>\<open>b c\<close>, \<^verbatim>\<open>format\<close> writes
  the value in quotes and \<^verbatim>\<open>parse\<close> reads it back without its last character.
\<close>

theorem format_parse_quoted_value:
  "format (Some \<lparr>parameters = [(js ''a'', js ''b c'')], type = js ''text/html''\<rparr>) =
     Inr (js ''text/html; a=\"b c\"'') \<and>
   parse (JSString (js ''text/html; a=\"b c\"'')) =
     Inr \<lparr>parameters = [(js ''a'', js ''b '')], type = js ''text/html''\<rparr>"
  by (simp add: parse_defs format_defs regexp_defs class_defs)

text \<open>
  C5. Each string of the rejection set fails with \<^verbatim>\<open>invalid media type\<close>. The pound
  sign of \<^verbatim>\<open>text/p\<pounds>ain\<close> is the code unit 0xA3.
\<close>

theorem parse_rejects_invalid_types:
  "parse (JSString (js '' '')) = Inl InvalidMediaType \<and>
   parse (JSString (js ''null'')) = Inl InvalidMediaType \<and>
   parse (JSString (js ''undefined'')) = Inl InvalidMediaType \<and>
   parse (JSString (js ''/'')) = Inl InvalidMediaType \<and>
   parse (JSString (js ''text / plain'')) = Inl InvalidMediaType \<and>
   parse (JSString (js ''text/;plain'')) = Inl InvalidMediaType \<and>
   parse (JSString (js ''text/\"plain\"'')) = Inl InvalidMediaType \<and>
   parse (JSString (js ''text/p'' @ [0xA3] @ js ''ain'')) = Inl InvalidMediaType \<and>
   parse (JSString (js ''text/(plain)'')) = Inl InvalidMediaType \<and>
   parse (JSString (js ''text/@plain'')) = Inl InvalidMediaType \<and>
   parse (JSString (js ''text/plain,wrong'')) = Inl InvalidMediaType \<and>
   message InvalidMediaType = ''invalid media type''"
  by (simp add: parse_defs regexp_defs class_defs)

text \<open>
  C9. The claim: an object with a header mapping that holds \<^verbatim>\<open>content-type: 'text/html'\<close>
  parses to the type \<^verbatim>\<open>text/html\<close>. The code reads \<^verbatim>\<open>obj.headers\<close> only when
  \<^verbatim>\<open>obj instanceof Request\<close>; the plain object of the test suite,
  \<^verbatim>\<open>{ headers: { 'content-type': 'text/html' } }\<close>, is no such instance and is refused
  with the missing-header error.
\<close>

theorem parse_plain_request_object:
  "parse (JSObject \<lparr>instanceof_Response = False, instanceof_Request = False, getHeader = None,
      headers = Headers [js ''content-type'' \<mapsto> js ''text/html'']\<rparr>) = Inl HeaderMissing"
  by (simp add: parse_def getcontenttype_def)

text \<open>The rest of the claim holds: an instance of \<^verbatim>\<open>Request\<close> with that header is parsed,
  and an object with neither property is refused with the missing-header error.\<close>

lemma parse_Request_instance:
  assumes "instanceof_Request obj" and "\<not> instanceof_Response obj"
    and "headers obj = Headers h" and "h (js ''content-type'') = Some (js ''text/html'')"
  shows "parse (JSObject obj) = Inr \<lparr>parameters = [], type = js ''text/html''\<rparr>"
  using assms by (simp add: parse_defs regexp_defs class_defs)

lemma parse_object_without_header:
  assumes "\<not> typeof_function (getHeader obj)" and "\<not> typeof_object (headers obj)"
  shows "parse (JSObject obj) = Inl HeaderMissing"
  using assms by (simp add: parse_def getcontenttype_def)

text \<open>
  C10. The empty string is falsy: \<^verbatim>\<open>parse('')\<close> fails at the first test of
  \<^verbatim>\<open>parse\<close>, with the error of a missing argument and not with
  \<^verbatim>\<open>invalid media type\<close>.
\<close>

theorem parse_empty_string:
  "parse (JSString []) = Inl ArgumentStringRequired \<and>
   parse JSUndefined = Inl ArgumentStringRequired \<and>
   message ArgumentStringRequired = ''argument string is required'' \<and>
   ArgumentStringRequired \<noteq> InvalidMediaType"
  by (simp add: parse_def)

section \<open>The quoted-text test and the quoting transform\<close>

text \<open>
  C4, as claimed, fails: \<^verbatim>\<open>TEXT_REGEXP\<close> accepts a string with a double quote, which is
  outside the claimed set. The quoting transform escapes it afterwards.
\<close>

theorem TEXT_REGEXP_test_quote_counterexample:
  "TEXT_REGEXP_test (js ''a\"b'') \<and> \<not> list_all quoted_text_char (js ''a\"b'')"
  by (simp add: js_def TEXT_REGEXP_test_def text_char_def quoted_text_char_def)

text \<open>
  C4, amended: for a string with neither a horizontal tab (0x09) nor a vertical tab (0x0B),
  the quoted-text test accepts it if and only if it is not empty and each of its
  characters is a space, a visible ASCII character (0x21 to 0x7E, the double quote and the
  backslash among them) or a code unit from 0x80 to 0xFF.
\<close>

theorem TEXT_REGEXP_test_chars:
  assumes "0x09 \<notin> set s" and "0x0B \<notin> set s"
  shows "TEXT_REGEXP_test s \<longleftrightarrow>
    s \<noteq> [] \<and> list_all (\<lambda>c. c = 0x20 \<or> (0x21 \<le> c \<and> c \<le> 0x7E) \<or> (0x80 \<le> c \<and> c \<le> 0xFF)) s"
proof -
  have "text_char c \<longleftrightarrow> c = 0x20 \<or> (0x21 \<le> c \<and> c \<le> 0x7E) \<or> (0x80 \<le> c \<and> c \<le> 0xFF)"
    if "c \<in> set s" for c
  proof -
    from that assms have "c \<noteq> 0x0B" by auto
    then show ?thesis unfolding text_char_def by arith
  qed
  then show ?thesis
    unfolding TEXT_REGEXP_test_def list_all_iff by blast
qed

theorem TEXT_REGEXP_test_chars_witness:
  "0x09 \<notin> set (js ''a\"b c'') \<and> 0x0B \<notin> set (js ''a\"b c'') \<and> TEXT_REGEXP_test (js ''a\"b c'')"
proof -
  have 1: "0x09 \<notin> set (js ''a\"b c'')" and 2: "0x0B \<notin> set (js ''a\"b c'')"
    by (simp_all add: js_def)
  from TEXT_REGEXP_test_chars [OF 1 2] show ?thesis
    using 1 2 by (simp add: js_def)
qed

section \<open>What the formatter writes\<close>

lemma qstring_acceptable: "acceptable_value v \<Longrightarrow> qstring v = Inr (quoted_value v)"
  by (auto simp: acceptable_value_def qstring_def quoted_value_def)

lemma format_loop_segments:
  assumes "list_all (\<lambda>k. TOKEN_REGEXP_test k \<and> (\<exists>v. map_of ps k = Some v \<and> acceptable_value v)) ks"
  shows "format_loop ps ks acc =
    Inr (acc @ concat (map (\<lambda>k. param_segment (k, the (map_of ps k))) ks))"
  using assms
proof (induction ks arbitrary: acc)
  case Nil
  show ?case by simp
next
  case (Cons k ks)
  from Cons.prems obtain v where k: "TOKEN_REGEXP_test k" and v: "map_of ps k = Some v"
    and a: "acceptable_value v" by auto
  from Cons.prems have rest: "list_all (\<lambda>k. TOKEN_REGEXP_test k \<and> (\<exists>v. map_of ps k = Some v \<and> acceptable_value v)) ks"
    by simp
  show ?case
    using k v qstring_acceptable [OF a] Cons.IH [OF rest]
    by (simp add: String_of_def param_segment_def)
qed

lemma map_fst_insort_key: "map fst (insort_key fst x xs) = insort (fst x) (map fst xs)"
  by (induction xs) auto

lemma map_fst_sort_key: "map fst (sort_key fst ps) = sort (map fst ps)"
  by (induction ps) (auto simp: map_fst_insort_key)

lemma lookup_sorted_keys:
  assumes "distinct (map fst ps)"
  shows "map (\<lambda>k. (k, the (map_of ps k))) (sort (map fst ps)) = sort_key fst ps"
proof -
  have "(k, the (map_of ps k)) = (k, v)" if "(k, v) \<in> set (sort_key fst ps)" for k v
    using that assms by simp
  then have "map (\<lambda>kv. (fst kv, the (map_of ps (fst kv)))) (sort_key fst ps) = sort_key fst ps"
    by (intro map_idI) auto
  then show ?thesis
    by (simp add: map_fst_sort_key [symmetric] comp_def)
qed

lemma format_accepts:
  assumes t: "TYPE_REGEXP_test t" and d: "distinct (map fst ps)"
    and ok: "list_all (\<lambda>(k, v). TOKEN_REGEXP_test k \<and> acceptable_value v) ps"
  shows "format (Some \<lparr>parameters = ps, type = t\<rparr>) =
    Inr (t @ concat (map param_segment (sort_key fst ps)))"
proof -
  from t have "t \<noteq> []" by (auto simp: TYPE_REGEXP_test_def)
  have "TOKEN_REGEXP_test k \<and> (\<exists>v. map_of ps k = Some v \<and> acceptable_value v)"
    if "k \<in> set (sort (map fst ps))" for k
  proof -
    from that obtain v where kv: "(k, v) \<in> set ps" by auto
    with d have "map_of ps k = Some v" by simp
    with kv ok show ?thesis by (auto simp: list_all_iff)
  qed
  then have "list_all (\<lambda>k. TOKEN_REGEXP_test k \<and> (\<exists>v. map_of ps k = Some v \<and> acceptable_value v))
      (sort (map fst ps))"
    unfolding list_all_iff by blast
  from format_loop_segments [OF this, of t] have
    "format_loop ps (sort (map fst ps)) t =
       Inr (t @ concat (map param_segment (map (\<lambda>k. (k, the (map_of ps k))) (sort (map fst ps)))))"
    by (simp add: comp_def)
  with t \<open>t \<noteq> []\<close> show ?thesis
    by (simp add: format_def lookup_sorted_keys [OF d])
qed

lemma sort_key_fst_unique:
  assumes "distinct (map fst ps)" and "distinct (map fst qs)" and "set qs = set ps"
  shows "sort_key fst qs = sort_key fst ps"
proof -
  have "sort (map fst qs) = sort (map fst ps)"
  proof (rule sorted_distinct_set_unique)
    show "set (sort (map fst qs)) = set (sort (map fst ps))" using assms(3) by simp
  qed (use assms in simp_all)
  moreover have "map_of qs = map_of ps"
    using assms by (simp add: map_of_inject_set)
  ultimately show ?thesis
    using lookup_sorted_keys [OF assms(1)] lookup_sorted_keys [OF assms(2)] by simp
qed

text \<open>
  C3, as claimed, fails: a parameter bound to the empty string does not make
  \<^verbatim>\<open>format\<close> fail. The test \<^verbatim>\<open>str.length > 0\<close> in \<^verbatim>\<open>qstring\<close> lets the empty
  string through, and it is written as two double quotes.
\<close>

theorem format_empty_value_counterexample:
  "format (Some \<lparr>parameters = [(js ''a'', [])], type = js ''text/html''\<rparr>) =
     Inr (js ''text/html; a=\"\"'')"
  by (simp add: format_defs regexp_defs class_defs)

text \<open>
  C3, amended: for an object with a valid type whose parameter names are valid tokens and
  whose values are each empty, a token or accepted by the quoted-text test, \<^verbatim>\<open>format\<close>
  succeeds, and for a name \<open>k\<close> bound to the empty string its output contains the segment
  \<^verbatim>\<open>; k=""\<close>.
\<close>

theorem format_empty_value:
  assumes "TYPE_REGEXP_test t" and "distinct (map fst ps)"
    and "list_all (\<lambda>(k, v). TOKEN_REGEXP_test k \<and> (v = [] \<or> TOKEN_REGEXP_test v \<or> TEXT_REGEXP_test v)) ps"
    and "(k, []) \<in> set ps"
  shows "\<exists>pre post. format (Some \<lparr>parameters = ps, type = t\<rparr>) =
           Inr (pre @ js ''; '' @ k @ js ''=\"\"'' @ post)"
proof -
  have ok: "list_all (\<lambda>(k, v). TOKEN_REGEXP_test k \<and> acceptable_value v) ps"
    using assms(3) by (auto simp: acceptable_value_def list_all_iff)
  from assms(4) have "(k, []) \<in> set (sort_key fst ps)" by simp
  from split_list [OF this] obtain xs ys where split: "sort_key fst ps = xs @ (k, []) # ys"
    by blast
  have "param_segment (k, []) = js ''; '' @ k @ js ''=\"\"''"
    by (simp add: param_segment_def quoted_value_def replace_QUOTE_def TOKEN_REGEXP_test_def js_def)
  with format_accepts [OF assms(1,2) ok] split
  have "format (Some \<lparr>parameters = ps, type = t\<rparr>) =
      Inr ((t @ concat (map param_segment xs)) @ js ''; '' @ k @ js ''=\"\"'' @ concat (map param_segment ys))"
    by simp
  then show ?thesis by blast
qed

theorem format_empty_value_witness:
  "\<exists>pre post. format (Some \<lparr>parameters = [(js ''charset'', js ''utf-8''), (js ''a'', [])],
       type = js ''text/html''\<rparr>) = Inr (pre @ js ''; a=\"\"'' @ post)"
proof -
  let ?ps = "[(js ''charset'', js ''utf-8''), (js ''a'', [])]"
  have t: "TYPE_REGEXP_test (js ''text/html'')"
    by (simp add: js_def regexp_defs class_defs)
  have d: "distinct (map fst ?ps)" by (simp add: js_def)
  have ok: "list_all (\<lambda>(k, v). TOKEN_REGEXP_test k \<and> (v = [] \<or> TOKEN_REGEXP_test v \<or> TEXT_REGEXP_test v)) ?ps"
    by (simp add: js_def regexp_defs class_defs)
  have m: "(js ''a'', []) \<in> set ?ps" by simp
  from format_empty_value [OF t d ok m] show ?thesis by (simp add: js_def)
qed

lemma representable_acceptable:
  assumes "representable v" and "0x09 \<notin> set v"
  shows "acceptable_value v"
proof -
  have "text_char c" if "quoted_text_char c" "c \<in> set v" for c
  proof -
    from that assms(2) have "c \<noteq> 0x09" by auto
    with that(1) show ?thesis unfolding quoted_text_char_def text_char_def by arith
  qed
  with assms(1) show ?thesis
    unfolding representable_def acceptable_value_def TEXT_REGEXP_test_def list_all_iff by blast
qed

text \<open>
  C8. The claim: for a valid type, names that are valid tokens and representable values,
  \<^verbatim>\<open>format\<close> returns the type followed by one segment \<^verbatim>\<open>; name=value\<close> per
  parameter, sorted by name. The value \<^verbatim>\<open>b\<close>, horizontal tab, \<^verbatim>\<open>c\<close> is
  representable: it is not empty and within the quoted-text set. \<^verbatim>\<open>format\<close> throws
  \<^verbatim>\<open>invalid parameter value\<close> for it, because the class of \<^verbatim>\<open>TEXT_REGEXP\<close> has the
  vertical tab 0x0B where the grammar quoted at the top of the source has HTAB.
\<close>

theorem format_horizontal_tab_value:
  "TYPE_REGEXP_test (js ''text/html'') \<and> TOKEN_REGEXP_test (js ''a'') \<and>
   representable (js ''b'' @ [0x09] @ js ''c'') \<and>
   format (Some \<lparr>parameters = [(js ''a'', js ''b'' @ [0x09] @ js ''c'')], type = js ''text/html''\<rparr>) =
     Inl InvalidParameterValue"
  by (simp add: format_defs regexp_defs class_defs representable_def quoted_text_char_def)

text \<open>Apart from that character the claim holds: for representable values without a
  horizontal tab the output is the type and the segments of the bindings sorted by name,
  whatever the order of insertion.\<close>

lemma format_sorted_without_tab:
  assumes "TYPE_REGEXP_test t" and "distinct (map fst ps)"
    and "list_all (\<lambda>(k, v). TOKEN_REGEXP_test k \<and> representable v \<and> 0x09 \<notin> set v) ps"
  shows "format (Some \<lparr>parameters = ps, type = t\<rparr>) =
           Inr (t @ concat (map param_segment (sort_key fst ps))) \<and>
         sorted (map fst (sort_key fst ps)) \<and> set (sort_key fst ps) = set ps \<and>
         length (sort_key fst ps) = length ps \<and>
         (\<forall>qs. distinct (map fst qs) \<and> set qs = set ps \<longrightarrow>
            format (Some \<lparr>parameters = qs, type = t\<rparr>) = format (Some \<lparr>parameters = ps, type = t\<rparr>))"
proof -
  have ok: "list_all (\<lambda>(k, v). TOKEN_REGEXP_test k \<and> acceptable_value v) ps"
    using assms(3) by (auto simp: list_all_iff intro: representable_acceptable)
  have main: "format (Some \<lparr>parameters = ps, type = t\<rparr>) =
      Inr (t @ concat (map param_segment (sort_key fst ps)))"
    by (rule format_accepts [OF assms(1,2) ok])
  have "format (Some \<lparr>parameters = qs, type = t\<rparr>) = format (Some \<lparr>parameters = ps, type = t\<rparr>)"
    if q: "distinct (map fst qs)" "set qs = set ps" for qs
  proof -
    from ok q(2) have "list_all (\<lambda>(k, v). TOKEN_REGEXP_test k \<and> acceptable_value v) qs"
      by (simp add: list_all_iff)
    from format_accepts [OF assms(1) q(1) this] main
      sort_key_fst_unique [OF assms(2) q(1) q(2)]
    show ?thesis by simp
  qed
  with main show ?thesis by simp
qed

lemma format_sorted_example:
  "format (Some \<lparr>parameters = [(js ''foo'', js ''b c''), (js ''charset'', js ''utf-8'')],
       type = js ''text/html''\<rparr>) = Inr (js ''text/html; charset=utf-8; foo=\"b c\"'') \<and>
   format (Some \<lparr>parameters = [(js ''charset'', js ''utf-8''), (js ''foo'', js ''b c'')],
       type = js ''text/html''\<rparr>) = Inr (js ''text/html; charset=utf-8; foo=\"b c\"'')"
proof -
  let ?ps = "[(js ''foo'', js ''b c''), (js ''charset'', js ''utf-8'')]"
  let ?qs = "[(js ''charset'', js ''utf-8''), (js ''foo'', js ''b c'')]"
  have t: "TYPE_REGEXP_test (js ''text/html'')"
    by (simp add: js_def regexp_defs class_defs)
  have d: "distinct (map fst ?ps)" by (simp add: js_def)
  have ok: "list_all (\<lambda>(k, v). TOKEN_REGEXP_test k \<and> representable v \<and> 0x09 \<notin> set v) ?ps"
    by (simp add: js_def regexp_defs class_defs representable_def quoted_text_char_def)
  have q: "distinct (map fst ?qs) \<and> set ?qs = set ?ps" by (auto simp: js_def)
  have seg: "js ''text/html'' @ concat (map param_segment (sort_key fst ?ps)) =
      js ''text/html; charset=utf-8; foo=\"b c\"''"
    by (simp add: js_def param_segment_def quoted_value_def replace_QUOTE_def regexp_defs class_defs)
  from format_sorted_without_tab [OF t d ok] q seg show ?thesis by simp
qed

section \<open>The scan of the parameter list\<close>


lemma tchar_not_delimiter:
  "tchar c \<Longrightarrow> \<not> space c \<and> c \<noteq> 0x22 \<and> c \<noteq> 0x3B \<and> c \<noteq> 0x3D \<and> c \<noteq> 0x0B \<and> c \<noteq> 0x09"
  unfolding tchar_def space_def by arith



lemma qdtext_quoted_text: "qdtext_char c \<Longrightarrow> c \<noteq> 0x0B \<Longrightarrow> quoted_text_char c"
  unfolding quoted_text_char_def qdtext_char_def by arith

lemma qesc_quoted_pair: "qesc_char c \<Longrightarrow> c \<noteq> 0x0B \<Longrightarrow> c \<noteq> 0x7F \<Longrightarrow> quoted_pair_char c"
  unfolding quoted_pair_char_def qesc_char_def by arith


lemma spaces_OWS: "list_all space ws \<Longrightarrow> list_all OWS_char ws"
  by (auto simp: list_all_iff OWS_char_def space_def)


lemma quoted_rest_sound:
  "quoted_rest s = Some (q, r) \<Longrightarrow> 0x0B \<notin> set s \<Longrightarrow> 0x7F \<notin> set s \<Longrightarrow>
     s = q @ r \<and> q \<noteq> [] \<and> last q = 0x22 \<and> quoted_content (butlast q)"
proof (induction s arbitrary: q r rule: quoted_rest.induct)
  case 1
  then show ?case by simp
next
  case (2 c cs)
  from "2.prems"(2,3) have c: "c \<noteq> 0x0B" "c \<noteq> 0x7F" and cs: "0x0B \<notin> set cs" "0x7F \<notin> set cs"
    by auto
  show ?case
  proof (cases "c = 0x22")
    case True
    with "2.prems"(1) show ?thesis by auto
  next
    case quote: False
    show ?thesis
    proof (cases "qdtext_char c")
      case True
      with quote "2.prems"(1) obtain q' where q: "q = c # q'" and "quoted_rest cs = Some (q', r)"
        by auto
      from "2.IH"(1) [OF quote True this(2) cs] q qdtext_quoted_text [OF True c(1)]
      show ?thesis by simp
    next
      case False
      with quote "2.prems"(1) obtain d ds q' where
        c5: "c = 0x5C" and cds: "cs = d # ds" and d: "qesc_char d"
        and q: "q = c # d # q'" and qr: "quoted_rest ds = Some (q', r)"
        by (auto split: if_splits list.splits)
      from cds cs have dd: "d \<noteq> 0x0B" "d \<noteq> 0x7F" and ds: "0x0B \<notin> set ds" "0x7F \<notin> set ds"
        by auto
      have "\<not> quoted_text_char c" using c5 by (simp add: quoted_text_char_def)
      with "2.IH"(2) [OF quote False c5 cds d qr ds] q c5 cds
        qesc_quoted_pair [OF d dd]
      show ?thesis by simp
    qed
  qed
qed


lemma value_match_sound:
  assumes "value_match s = Some (v, r)" and "0x0B \<notin> set s" and "0x7F \<notin> set s"
  shows "s = v @ r \<and> (TOKEN_REGEXP_test v \<or> quoted_string v)"
proof (cases s)
  case Nil
  with assms show ?thesis by (simp add: value_match_def)
next
  case (Cons c cs)
  show ?thesis
  proof (cases "c = 0x22")
    case True
    with assms(1) Cons obtain q where q: "quoted_rest cs = Some (q, r)" and v: "v = c # q"
      by (auto simp: value_match_def)
    from assms(2,3) Cons have "0x0B \<notin> set cs" "0x7F \<notin> set cs" by auto
    from quoted_rest_sound [OF q this] v True Cons show ?thesis
      by (simp add: quoted_string_def)
  next
    case False
    with assms(1) Cons have v: "v = takeWhile tchar s" "r = dropWhile tchar s" "v \<noteq> []"
      by (auto simp: value_match_def split: if_splits)
    have "list_all tchar (takeWhile tchar s)"
      by (auto simp: list_all_iff dest: set_takeWhileD)
    with v show ?thesis by (simp add: TOKEN_REGEXP_test_def)
  qed
qed


lemma PARAM_REGEXP_match_sound:
  assumes "PARAM_REGEXP_match s = Some (n, k, v)" and "0x0B \<notin> set s" and "0x7F \<notin> set s"
  shows "\<exists>p r. well_formed_param p \<and> pname p = k \<and> pvalue p = v \<and>
    s = param_string p @ r \<and> n = length (param_string p)"
proof -
  from assms(1) obtain s1 where s: "s = 0x3B # s1"
    by (cases s) (auto simp: PARAM_REGEXP_match_def split: if_splits)
  define s2 where "s2 = dropWhile space s1"
  define s3 where "s3 = dropWhile space (dropWhile tchar s2)"
  from assms(1) s obtain s4 s5 where
    k: "k = takeWhile tchar s2" "k \<noteq> []" and
    s3: "s3 = 0x3D # s4" and vm: "value_match (dropWhile space s4) = Some (v, s5)"
    and n: "n = length s - length (dropWhile space s5)"
    by (auto simp: PARAM_REGEXP_match_def Let_def s2_def s3_def
        split: if_splits list.splits option.splits)
  have sub: "set (dropWhile P xs) \<subseteq> set xs" for P and xs :: jsstring
    by (auto dest: set_dropWhileD)
  have "set s4 \<subseteq> set s3" using s3 by auto
  also have "\<dots> \<subseteq> set s2" unfolding s3_def using sub by (meson order_trans)
  also have "\<dots> \<subseteq> set s" unfolding s2_def s using sub [of space s1] by auto
  finally have "set (dropWhile space s4) \<subseteq> set s" using sub [of space s4] by auto
  with assms(2,3) have "0x0B \<notin> set (dropWhile space s4)" "0x7F \<notin> set (dropWhile space s4)"
    by auto
  from value_match_sound [OF vm this] have v: "dropWhile space s4 = v @ s5"
    and wfv: "TOKEN_REGEXP_test v \<or> quoted_string v" by auto
  have run: "list_all OWS_char (takeWhile space xs)" for xs
    by (auto simp: list_all_iff OWS_char_def space_def dest: set_takeWhileD)
  define p where "p = \<lparr>lead = takeWhile space s1, pname = k,
    before_eq = takeWhile space (dropWhile tchar s2),
    after_eq = takeWhile space s4, pvalue = v,
    trail = takeWhile space s5\<rparr>"
  have "list_all tchar k"
    unfolding k by (auto simp: list_all_iff dest: set_takeWhileD)
  with k wfv run have wf: "well_formed_param p"
    by (simp add: well_formed_param_def p_def TOKEN_REGEXP_test_def)
  have "s1 = takeWhile space s1 @ s2" by (simp add: s2_def)
  moreover have "s2 = k @ dropWhile tchar s2" by (simp add: k)
  moreover have "dropWhile tchar s2 = takeWhile space (dropWhile tchar s2) @ s3"
    by (simp add: s3_def)
  moreover have "s4 = takeWhile space s4 @ v @ s5"
    using v by (metis takeWhile_dropWhile_id)
  moreover have "s5 = takeWhile space s5 @ dropWhile space s5" by simp
  ultimately have "s1 = takeWhile space s1 @ k @ takeWhile space (dropWhile tchar s2) @
      0x3D # takeWhile space s4 @ v @ takeWhile space s5 @ dropWhile space s5"
    using s3 by metis
  then have dec: "s = param_string p @ dropWhile space s5"
    by (simp add: s param_string_def p_def)
  then have "length s = length (param_string p) + length (dropWhile space s5)"
    by (metis length_append)
  with n have "n = length (param_string p)" by simp
  with wf dec show ?thesis by (auto simp: p_def)
qed

text \<open>The loop, unfolded once.\<close>

lemma parse_loop_None:
  "PARAM_REGEXP_exec header index = None \<Longrightarrow>
     parse_loop header index ps =
       (if index \<noteq> length header then Inl InvalidParameterFormat else Inr ps)"
  by (subst parse_loop.simps) simp

lemma parse_loop_Some:
  "PARAM_REGEXP_exec header index = Some (mi, n, k, v) \<Longrightarrow>
     parse_loop header index ps =
       (if mi \<noteq> index then Inl InvalidParameterFormat
        else parse_loop header (index + n) (set_property ps (toLowerCase k) (stored_value v)))"
  by (subst parse_loop.simps) simp

lemma parse_loop_error: "parse_loop header i ps = Inl e \<Longrightarrow> e = InvalidParameterFormat"
proof (induction header i ps rule: parse_loop.induct)
  case (1 header index ps)
  show ?case
  proof (cases "PARAM_REGEXP_exec header index")
    case None
    with "1.prems" show ?thesis by (simp add: parse_loop_None split: if_splits)
  next
    case (Some m)
    obtain mi n k v where m: "m = (mi, n, k, v)" by (cases m) auto
    show ?thesis
    proof (cases "mi = index")
      case True
      with "1.prems" Some m have "parse_loop header (index + n)
          (set_property ps (toLowerCase k) (stored_value v)) = Inl e"
        by (simp add: parse_loop_Some)
      with "1.IH" Some m True show ?thesis by auto
    next
      case False
      with "1.prems" Some m show ?thesis by (simp add: parse_loop_Some)
    qed
  qed
qed

lemma parameter_list_Nil: "parameter_list []"
  unfolding parameter_list_def by (rule exI [of _ "[]"]) simp

lemma parameter_list_Cons:
  assumes "well_formed_param p" and "parameter_list r"
  shows "parameter_list (param_string p @ r)"
proof -
  from assms(2) obtain ps where "list_all well_formed_param ps" "r = concat (map param_string ps)"
    by (auto simp: parameter_list_def)
  with assms(1) show ?thesis
    unfolding parameter_list_def by (intro exI [of _ "p # ps"]) simp
qed

lemma parse_loop_sound:
  "parse_loop header i ps = Inr ps' \<Longrightarrow> 0x0B \<notin> set (drop i header) \<Longrightarrow>
     0x7F \<notin> set (drop i header) \<Longrightarrow> parameter_list (drop i header)"
proof (induction header i ps rule: parse_loop.induct)
  case (1 header index ps)
  show ?case
  proof (cases "PARAM_REGEXP_exec header index")
    case None
    with "1.prems"(1) have "index = length header"
      by (simp add: parse_loop_None split: if_splits)
    then show ?thesis by (simp add: parameter_list_Nil)
  next
    case (Some m)
    obtain mi n k v where m: "m = (mi, n, k, v)" by (cases m) auto
    from "1.prems"(1) Some m have mi: "mi = index"
      by (simp add: parse_loop_Some split: if_splits)
    with "1.prems"(1) Some m have rec: "parse_loop header (index + n)
        (set_property ps (toLowerCase k) (stored_value v)) = Inr ps'"
      by (simp add: parse_loop_Some)
    from Some m mi have "PARAM_REGEXP_match (drop index header) = Some (n, k, v)"
      unfolding PARAM_REGEXP_exec_def by (auto dest: PARAM_REGEXP_search_index)
    from PARAM_REGEXP_match_sound [OF this "1.prems"(2,3)] obtain p r where
      wf: "well_formed_param p" and dec: "drop index header = param_string p @ r"
      and n: "n = length (param_string p)" by blast
    have "drop (index + n) header = drop n (drop index header)"
      by (simp add: add.commute)
    with dec n have r: "drop (index + n) header = r" by simp
    with dec "1.prems"(2,3) have "0x0B \<notin> set (drop (index + n) header)"
      "0x7F \<notin> set (drop (index + n) header)" by auto
    with "1.IH" Some m mi rec have "parameter_list (drop (index + n) header)" by auto
    with r wf dec show ?thesis by (simp add: parameter_list_Cons)
  qed
qed



lemma indexOf_semicolon_append:
  assumes "0x3B \<notin> set t"
  shows "indexOf_semicolon (t @ 0x3B # r) = Some (length t)"
proof -
  from assms have "takeWhile (\<lambda>c. c \<noteq> 0x3B) (t @ 0x3B # r) = t"
    by (induction t) auto
  then show ?thesis by (simp add: indexOf_semicolon_def Let_def)
qed


lemma substring_prefix: "substring (t @ r) 0 (length t) = t"
  by (simp add: substring_def Let_def)








lemma quoted_content_chars: "quoted_content b \<Longrightarrow> 0x0B \<notin> set b"
proof (induction b rule: quoted_content.induct)
  case 1
  show ?case by simp
next
  case (2 c cs)
  show ?case
  proof (cases "quoted_text_char c")
    case True
    then have "c \<noteq> 0x0B" by (auto simp: quoted_text_char_def)
    with True 2 show ?thesis by simp
  next
    case False
    with "2.prems" obtain d ds where c: "c = 0x5C" and cs: "cs = d # ds"
      and d: "quoted_pair_char d" and ds: "quoted_content ds"
      by (auto split: list.splits)
    from d have "d \<noteq> 0x0B" by (auto simp: quoted_pair_char_def)
    with "2.IH"(2) [OF False cs ds] c cs show ?thesis by simp
  qed
qed

lemma well_formed_param_chars:
  assumes "well_formed_param p"
  shows "0x0B \<notin> set (param_string p)"
proof -
  have ows: "0x0B \<notin> set ws" if "list_all OWS_char ws" for ws
    using that by (auto simp: list_all_iff OWS_char_def)
  have tok: "0x0B \<notin> set k" if "TOKEN_REGEXP_test k" for k
    using that tchar_not_delimiter by (auto simp: TOKEN_REGEXP_test_def list_all_iff)
  have "0x0B \<notin> set (pvalue p)"
  proof (cases "TOKEN_REGEXP_test (pvalue p)")
    case True
    then show ?thesis by (rule tok)
  next
    case False
    with assms have "quoted_string (pvalue p)" by (simp add: well_formed_param_def)
    then obtain cs where v: "pvalue p = 0x22 # cs" and cs: "cs \<noteq> []" "last cs = 0x22"
      "quoted_content (butlast cs)"
      by (cases "pvalue p") (auto simp: quoted_string_def)
    from cs(1,2) have "cs = butlast cs @ [0x22]" by (metis append_butlast_last_id)
    then have "set cs = set (butlast cs) \<union> {0x22}"
      by (metis list.simps(15) set_append empty_set Un_insert_right sup_bot.right_neutral)
    with quoted_content_chars [OF cs(3)] v show ?thesis by simp
  qed
  with assms ows tok show ?thesis
    by (simp add: param_string_def well_formed_param_def)
qed

lemma parameter_list_chars:
  assumes "parameter_list s"
  shows "0x0B \<notin> set s"
proof -
  from assms obtain ps where wf: "list_all well_formed_param ps"
    and s: "s = concat (map param_string ps)"
    by (auto simp: parameter_list_def)
  have "0x0B \<notin> set (param_string p)" if "p \<in> set ps" for p
    using that wf by (intro well_formed_param_chars) (simp add: list_all_iff)
  then show ?thesis unfolding s by auto
qed

text \<open>
  C6. The claim: when the parameter list after the media type is not a sequence of
  well-formed parameters reaching the end of the input, \<^verbatim>\<open>parse\<close> fails with
  \<^verbatim>\<open>invalid parameter format\<close>. In \<^verbatim>\<open>text/html; a="b?c"\<close>, with the vertical tab 0x0B
  for \<^verbatim>\<open>?\<close>, the quoted string holds a character that is neither quoted text nor the
  start of a quoted pair, so the list is not well-formed; \<^verbatim>\<open>parse\<close> accepts it, because
  the classes of \<^verbatim>\<open>PARAM_REGEXP\<close> have 0x0B where the grammar quoted above it has HTAB.
\<close>

theorem parse_vertical_tab_in_quotes:
  "\<not> parameter_list (js ''; a=\"b'' @ [0x0B] @ js ''c\"'') \<and>
   parse (JSString (js ''text/html; a=\"b'' @ [0x0B] @ js ''c\"'')) =
     Inr \<lparr>parameters = [(js ''a'', js ''b'' @ [0x0B])], type = js ''text/html''\<rparr>"
proof -
  have "0x0B \<in> set (js ''; a=\"b'' @ [0x0B] @ js ''c\"'')" by simp
  with parameter_list_chars have "\<not> parameter_list (js ''; a=\"b'' @ [0x0B] @ js ''c\"'')"
    by blast
  moreover have "parse (JSString (js ''text/html; a=\"b'' @ [0x0B] @ js ''c\"'')) =
     Inr \<lparr>parameters = [(js ''a'', js ''b'' @ [0x0B])], type = js ''text/html''\<rparr>"
    by (simp add: parse_defs regexp_defs class_defs)
  ultimately show ?thesis by simp
qed

text \<open>Apart from the two characters that \<^verbatim>\<open>PARAM_REGEXP\<close> admits beyond its grammar
  (0x0B, and 0x7F after a backslash) the claim holds, for every input with a valid media
  type before its first semicolon.\<close>

lemma parse_malformed_parameter_list:
  assumes "0x3B \<notin> set t" and "TYPE_REGEXP_test (trim t)"
    and "0x0B \<notin> set rest" and "0x7F \<notin> set rest"
    and "\<not> parameter_list (0x3B # rest)"
  shows "parse (JSString (t @ 0x3B # rest)) = Inl InvalidParameterFormat"
proof -
  have "parse_loop (t @ 0x3B # rest) (length t) [] = Inl InvalidParameterFormat"
  proof (cases "parse_loop (t @ 0x3B # rest) (length t) []")
    case (Inl e)
    then show ?thesis by (simp add: parse_loop_error)
  next
    case (Inr ps)
    from parse_loop_sound [OF this] assms(3,4,5) show ?thesis by simp
  qed
  with assms(1,2) show ?thesis
    by (simp add: parse_def parse_header_def indexOf_semicolon_append substring_prefix)
qed

lemma parse_unterminated_quote:
  "parse (JSString (js ''text/plain; foo=\"bar'')) = Inl InvalidParameterFormat"
  by (simp add: parse_defs regexp_defs class_defs)




text \<open>A parameter named \<^verbatim>\<open>__proto__\<close> is matched and then lost.\<close>

lemma parse_proto_parameter:
  "parse (JSString (js ''text/html; __proto__=a'')) =
     Inr \<lparr>parameters = [], type = js ''text/html''\<rparr>"
  by (simp add: parse_defs regexp_defs class_defs)

end
